theory Spec2Isabelle
  imports Main "HOL-Library.Product_Lexorder"
begin

section \<open>Region-ordered, duplicate-free fetching (parascopy, inner/common.py)\<close>

subsection \<open>Data\<close>

text \<open>
  Exceptions of the Python code are values.  \<open>UnknownChromosome\<close> is the failure of
  \<open>genome.chrom_id(name)\<close>, \<open>IndexError\<close> the failure of \<open>line[i]\<close>,
  \<open>ValueError\<close> the failure of \<open>int(s)\<close>, \<open>ParseError\<close> the failure of
  \<open>NamedInterval.parse\<close>, \<open>OpenError\<close> the failure of opening the region file, and
  \<open>StartError\<close> the failure of reading the start of a fetched entry
  (\<open>entry.start\<close> or \<open>int(entry[1])\<close>).
\<close>

datatype error =
    UnknownChromosome string
  | IndexError
  | ValueError string
  | ParseError string
  | OpenError string
  | StartError

text \<open>
  Modelled from the spec: the class \<open>Genome\<close> of the module \<open>genome\<close> is not among the
  sources.  The spec (section 6) gives its interface: \<open>chrom_id(name)\<close>, which fails for
  an unknown name, \<open>chrom_len(id)\<close>, \<open>chrom_name(id)\<close> and the enumerable lengths
  \<open>chrom_lengths\<close>, whose position is the chromosome id
  (\<open>enumerate(genome.chrom_lengths)\<close> in \<open>get_regions\<close>).
\<close>

record genome =
  genome_chrom_id :: "string \<Rightarrow> nat option"
  genome_chrom_len :: "nat \<Rightarrow> int"
  genome_chrom_name :: "nat \<Rightarrow> string"
  chrom_lengths :: "int list"

text \<open>
  Modelled from the spec: the class \<open>NamedInterval\<close> of the module \<open>genome\<close> is not
  among the sources.  The spec (section 3) gives its fields: a chromosome id, a half-open
  range \<open>[start, end)\<close> and an optional name.  The field \<open>end\<close> is called \<open>end_pos\<close>
  here.
\<close>

record interval =
  chrom_id :: nat
  start :: int
  end_pos :: int
  name :: "string option"

text \<open>
  Modelled from the spec: \<open>region.chrom_name(genome)\<close> is the genome's name of the
  region's chromosome.
\<close>

definition chrom_name :: "interval \<Rightarrow> genome \<Rightarrow> string" where
  "chrom_name region g = genome_chrom_name g (chrom_id region)"

text \<open>
  A fetched entry.  The code reads its start in one of two ways, chosen by
  \<open>start_attr\<close>: \<open>entry.start\<close> or \<open>int(entry[1])\<close>.  Both are external to the code;
  an entry records what each of the two expressions evaluates to, \<open>None\<close> when it
  raises.  \<open>label\<close> stands for the rest of the entry.
\<close>

record entry =
  label :: string
  entry_start :: "int option"
  entry_field1 :: "int option"

text \<open>
  The source object \<open>obj\<close>: its range query \<open>obj.fetch(chrom_name, start, end)\<close> and its
  query without arguments \<open>obj.fetch()\<close>.  A query returns a finite sequence of entries;
  a query that raises is outside the model.
\<close>

record source =
  fetch :: "string \<Rightarrow> int \<Rightarrow> int \<Rightarrow> entry list"
  fetch_all :: "entry list"

text \<open>The local variables \<open>prev_chrom_id\<close> and \<open>prev_start\<close> of the generator.\<close>

record cursor =
  prev_chrom_id :: "nat option"
  prev_start :: int

subsection \<open>The generator \<open>_fetch_regions_wo_duplicates\<close>\<close>

text \<open>\<open>start = entry.start if start_attr else int(entry[1])\<close>\<close>

definition get_start :: "bool \<Rightarrow> entry \<Rightarrow> error + int" where
  "get_start start_attr e =
     (case (if start_attr then entry_start e else entry_field1 e) of
        None \<Rightarrow> Inl StartError
      | Some s \<Rightarrow> Inr s)"

text \<open>
  The inner loop over the entries of one range query: the entries it yields, and the
  exception that ended it, if any.
\<close>

fun scan_entries :: "bool \<Rightarrow> bool \<Rightarrow> int \<Rightarrow> entry list \<Rightarrow> entry list \<times> error option" where
  "scan_entries start_attr same_chrom ps [] = ([], None)"
| "scan_entries start_attr same_chrom ps (e # es) =
     (if same_chrom then
        (case get_start start_attr e of
           Inl err \<Rightarrow> ([], Some err)
         | Inr s \<Rightarrow>
             if s \<le> ps then scan_entries start_attr same_chrom ps es
             else (case scan_entries start_attr same_chrom ps es of
                     (ys, r) \<Rightarrow> (e # ys, r)))
      else (case scan_entries start_attr same_chrom ps es of
              (ys, r) \<Rightarrow> (e # ys, r)))"

text \<open>The range query of one region: \<open>obj.fetch(region.chrom_name(genome), region.start, region.end)\<close>.\<close>

definition fetch_region :: "source \<Rightarrow> genome \<Rightarrow> interval \<Rightarrow> entry list" where
  "fetch_region obj g region = fetch obj (chrom_name region g) (start region) (end_pos region)"

text \<open>\<open>same_chrom = region.chrom_id == prev_chrom_id\<close>; \<open>None\<close> equals no chromosome id.\<close>

definition same_chrom :: "cursor \<Rightarrow> interval \<Rightarrow> bool" where
  "same_chrom c region = (Some (chrom_id region) = prev_chrom_id c)"

text \<open>The value of \<open>prev_start\<close> after \<open>if not same_chrom: prev_start = -1\<close>.\<close>

definition start_threshold :: "cursor \<Rightarrow> interval \<Rightarrow> int" where
  "start_threshold c region = (if \<not> same_chrom c region then - 1 else prev_start c)"

text \<open>
  The body of the outer loop for one region: the entries yielded while the region is
  processed, and either the exception raised or the cursor the next region starts from.
\<close>

definition region_body ::
  "source \<Rightarrow> genome \<Rightarrow> bool \<Rightarrow> cursor \<Rightarrow> interval \<Rightarrow> entry list \<times> (error + cursor)" where
  "region_body obj g start_attr c region =
     (let ps = start_threshold c region;
          es = fetch_region obj g region
      in case scan_entries start_attr (same_chrom c region) ps es of
           (ys, Some err) \<Rightarrow> (ys, Inl err)
         | (ys, None) \<Rightarrow>
             (if es = [] then
                (ys, Inr \<lparr>prev_chrom_id = Some (chrom_id region), prev_start = ps\<rparr>)
              else
                (case get_start start_attr (last es) of
                   Inl err \<Rightarrow> (ys, Inl err)
                 | Inr s \<Rightarrow>
                     (ys, Inr \<lparr>prev_chrom_id = Some (chrom_id region),
                               prev_start = max ps s\<rparr>))))"

text \<open>The outer loop, from a given cursor.\<close>

fun regions_loop ::
  "source \<Rightarrow> genome \<Rightarrow> bool \<Rightarrow> cursor \<Rightarrow> interval list \<Rightarrow> entry list \<times> (error + cursor)" where
  "regions_loop obj g start_attr c [] = ([], Inr c)"
| "regions_loop obj g start_attr c (region # rest) =
     (case region_body obj g start_attr c region of
        (ys, Inl err) \<Rightarrow> (ys, Inl err)
      | (ys, Inr c') \<Rightarrow>
          (case regions_loop obj g start_attr c' rest of
             (zs, r) \<Rightarrow> (ys @ zs, r)))"

definition initial_cursor :: cursor where
  "initial_cursor = \<lparr>prev_chrom_id = None, prev_start = - 1\<rparr>"

text \<open>
  What a consumer sees of a run of the loop: the entries yielded, and the exception that
  ended the run (\<open>None\<close> when the generator ends normally).  The cursor is local to the
  generator and is dropped.
\<close>

fun generator_result :: "entry list \<times> (error + cursor) \<Rightarrow> entry list \<times> error option" where
  "generator_result (ys, Inl err) = (ys, Some err)"
| "generator_result (ys, Inr c) = (ys, None)"

text \<open>The generator, consumed to its end.\<close>

definition fetch_regions_wo_duplicates ::
  "source \<Rightarrow> interval list \<Rightarrow> genome \<Rightarrow> bool \<Rightarrow> entry list \<times> error option" where
  "fetch_regions_wo_duplicates obj regions g start_attr =
     generator_result (regions_loop obj g start_attr initial_cursor regions)"

subsection \<open>Strings as Python reads them\<close>

text \<open>
  \<open>str.isspace\<close> on the ASCII characters: tab, line feed, vertical tab, form feed,
  carriage return, the four separators \<open>0x1C\<close> to \<open>0x1F\<close>, and the space.
\<close>

definition is_space :: "char \<Rightarrow> bool" where
  "is_space c = (c \<in> set [CHR 0x09, CHR 0x0A, CHR 0x0B, CHR 0x0C, CHR 0x0D,
                           CHR 0x1C, CHR 0x1D, CHR 0x1E, CHR 0x1F, CHR 0x20])"

text \<open>\<open>s.strip()\<close>\<close>

definition strip :: "string \<Rightarrow> string" where
  "strip s = rev (dropWhile is_space (rev (dropWhile is_space s)))"

text \<open>\<open>s.split(sep)\<close> for a separator of one character.\<close>

fun split_on :: "char \<Rightarrow> string \<Rightarrow> string list" where
  "split_on sep [] = [[]]"
| "split_on sep (c # cs) =
     (if c = sep then [] # split_on sep cs
      else (case split_on sep cs of
              [] \<Rightarrow> [[c]]
            | w # ws \<Rightarrow> (c # w) # ws))"

text \<open>\<open>line.startswith('#')\<close>\<close>

definition starts_with_hash :: "string \<Rightarrow> bool" where
  "starts_with_hash line = (case line of [] \<Rightarrow> False | c # cs \<Rightarrow> c = CHR ''#'')"

definition is_digit :: "char \<Rightarrow> bool" where
  "is_digit c = (c \<in> set ''0123456789'')"

definition digit_val :: "char \<Rightarrow> int" where
  "digit_val c = int (of_char c) - 48"

text \<open>
  The digits of a decimal literal as \<open>int(s)\<close> accepts them: at least one digit, and single
  underscores between digits.  The flag says whether the previous character was a digit.
\<close>

fun parse_digits :: "int \<Rightarrow> bool \<Rightarrow> string \<Rightarrow> int option" where
  "parse_digits acc prev_digit [] = (if prev_digit then Some acc else None)"
| "parse_digits acc prev_digit (c # cs) =
     (if is_digit c then parse_digits (10 * acc + digit_val c) True cs
      else if c = CHR ''_'' \<and> prev_digit then parse_digits acc False cs
      else None)"

text \<open>
  \<open>int(s)\<close> for a string of ASCII characters: surrounding whitespace is dropped, one sign
  is allowed, the rest is a decimal literal; anything else raises \<open>ValueError\<close>.
\<close>

definition py_int :: "string \<Rightarrow> error + int" where
  "py_int s =
     (case (case strip s of
              [] \<Rightarrow> None
            | c # cs \<Rightarrow>
                if c = CHR ''-'' then map_option uminus (parse_digits 0 False cs)
                else if c = CHR ''+'' then parse_digits 0 False cs
                else parse_digits 0 False (c # cs)) of
        None \<Rightarrow> Inl (ValueError s)
      | Some n \<Rightarrow> Inr n)"

text \<open>\<open>xs[i]\<close> for an index that is not negative.\<close>

definition py_index :: "'a list \<Rightarrow> nat \<Rightarrow> error + 'a" where
  "py_index xs i = (if i < length xs then Inr (xs ! i) else Inl IndexError)"

subsection \<open>Named intervals\<close>

text \<open>
  Modelled from the spec: the constructor \<open>NamedInterval(chrom_id, start, end, genome, name)\<close>
  is not among the sources.  The spec (section 3) has it store its fields, the name
  defaulting to \<open>None\<close>, and names no failure of it.
\<close>

definition NamedInterval :: "nat \<Rightarrow> int \<Rightarrow> int \<Rightarrow> genome \<Rightarrow> string option \<Rightarrow> interval" where
  "NamedInterval cid s e g nm = \<lparr>chrom_id = cid, start = s, end_pos = e, name = nm\<rparr>"

text \<open>
  Modelled from the spec: \<open>interval.trim(genome)\<close> is not among the sources.  The spec
  (section 4.1) has it clamp \<open>start\<close> to \<open>max(0, start)\<close> and \<open>end\<close> to
  \<open>min(end, chrom_length)\<close>.  The code calls it for its effect on the interval; here it
  returns the trimmed interval.
\<close>

definition trim :: "interval \<Rightarrow> genome \<Rightarrow> interval" where
  "trim iv g = iv\<lparr>start := max 0 (start iv),
                   end_pos := min (end_pos iv) (genome_chrom_len g (chrom_id iv))\<rparr>"

text \<open>
  Modelled from the spec: \<open>NamedInterval.parse(text, genome)\<close> is not among the sources.
  The spec (section 4.1) has it accept \<open>chrom:start-end\<close> and fail with a \<open>ParseError\<close>
  when the chromosome is unknown or the range is malformed (not numeric, or
  \<open>start > end\<close>).  The numbers are taken as the bounds of the half-open range.
\<close>

definition parse :: "string \<Rightarrow> genome \<Rightarrow> error + interval" where
  "parse text g =
     (let chrom = takeWhile (\<lambda>c. c \<noteq> CHR '':'') text;
          range = drop 1 (dropWhile (\<lambda>c. c \<noteq> CHR '':'') text);
          lo = takeWhile (\<lambda>c. c \<noteq> CHR ''-'') range;
          hi = drop 1 (dropWhile (\<lambda>c. c \<noteq> CHR ''-'') range)
      in case (genome_chrom_id g chrom, parse_digits 0 False lo, parse_digits 0 False hi) of
           (Some cid, Some s, Some e) \<Rightarrow>
             if s \<le> e then Inr (NamedInterval cid s e g None) else Inl (ParseError text)
         | _ \<Rightarrow> Inl (ParseError text))"

text \<open>
  Modelled from the spec: the comparison of intervals is not among the sources.  The
  spec (section 4.1) orders them lexicographically by \<open>(chrom_id, start, end)\<close>.
\<close>

definition interval_key :: "interval \<Rightarrow> nat \<times> int \<times> int" where
  "interval_key iv = (chrom_id iv, start iv, end_pos iv)"

subsection \<open>The region set: \<open>get_regions\<close>\<close>

text \<open>The arguments \<open>args.regions\<close> and \<open>args.regions_file\<close>; either may be \<open>None\<close>.\<close>

record args =
  regions :: "string list option"
  regions_file :: "string option"

text \<open>
  The files the code can read: the lines of the standard input, and the lines of the file
  at each path (\<open>None\<close> when the file cannot be opened).  A line ends with its line
  feed, as iterating over a Python file gives it.
\<close>

record files =
  stdin_lines :: "string list"
  file_lines :: "string \<Rightarrow> string list option"

text \<open>
  \<open>open_possible_gzip(filename)\<close> in mode \<open>'r'\<close>, for a filename that is not \<open>None\<close>: the
  lines that iterating over the opened file gives.  The path \<open>-\<close> is the standard input.
\<close>

definition open_possible_gzip :: "files \<Rightarrow> string \<Rightarrow> error + string list" where
  "open_possible_gzip fs filename =
     (if filename = ''-'' then Inr (stdin_lines fs)
      else (case file_lines fs filename of
              None \<Rightarrow> Inl (OpenError filename)
            | Some ls \<Rightarrow> Inr ls))"

text \<open>
  A loop that appends one interval per item and is ended by the first exception: the
  intervals of all items, or the first exception raised.
\<close>

fun collect :: "('a \<Rightarrow> error + 'b) \<Rightarrow> 'a list \<Rightarrow> error + 'b list" where
  "collect f [] = Inr []"
| "collect f (x # xs) =
     (case f x of
        Inl err \<Rightarrow> Inl err
      | Inr y \<Rightarrow> (case collect f xs of Inl err \<Rightarrow> Inl err | Inr ys \<Rightarrow> Inr (y # ys)))"

text \<open>The body of the loop over \<open>args.regions\<close>.\<close>

definition interval_of_region :: "genome \<Rightarrow> string \<Rightarrow> error + interval" where
  "interval_of_region g region =
     (case (if CHR '':'' \<in> set region then parse region g
            else (case genome_chrom_id g region of
                    None \<Rightarrow> Inl (UnknownChromosome region)
                  | Some cid \<Rightarrow> Inr (NamedInterval cid 0 (genome_chrom_len g cid) g None))) of
        Inl err \<Rightarrow> Inl err
      | Inr iv \<Rightarrow> Inr (trim iv g))"

text \<open>The body of the loop over the lines of the region file, for a line that is not skipped.\<close>

definition interval_of_line :: "genome \<Rightarrow> string \<Rightarrow> error + interval" where
  "interval_of_line g line0 =
     (let line = split_on (CHR 0x09) (strip line0) in
      case py_index line 0 of Inl err \<Rightarrow> Inl err | Inr f0 \<Rightarrow>
      (case genome_chrom_id g f0 of None \<Rightarrow> Inl (UnknownChromosome f0) | Some cid \<Rightarrow>
      (case py_index line 1 of Inl err \<Rightarrow> Inl err | Inr f1 \<Rightarrow>
      (case py_int f1 of Inl err \<Rightarrow> Inl err | Inr s \<Rightarrow>
      (case py_index line 2 of Inl err \<Rightarrow> Inl err | Inr f2 \<Rightarrow>
      (case py_int f2 of Inl err \<Rightarrow> Inl err | Inr e \<Rightarrow>
         Inr (trim (NamedInterval cid s e g
                      (if length line > 3 then Some (line ! 3) else None)) g)))))))"

text \<open>The third branch: one interval per chromosome, \<open>enumerate(genome.chrom_lengths)\<close>.\<close>

definition whole_chromosomes :: "genome \<Rightarrow> interval list" where
  "whole_chromosomes g =
     map (\<lambda>(cid, len). NamedInterval cid 0 len g (Some (genome_chrom_name g cid)))
         (enumerate 0 (chrom_lengths g))"

text \<open>
  The end of \<open>get_regions\<close>: \<open>if sort: intervals.sort()\<close>, unless an exception was raised
  before.  \<open>intervals.sort()\<close> is a stable sort by the order of intervals.
\<close>

definition finish_regions :: "bool \<Rightarrow> error + interval list \<Rightarrow> error + interval list" where
  "finish_regions srt res =
     (case res of
        Inl err \<Rightarrow> Inl err
      | Inr intervals \<Rightarrow> Inr (if srt then sort_key interval_key intervals else intervals))"

text \<open>
  \<open>get_regions(args, genome, sort)\<close>.  An empty list and an empty string are false in
  Python, as \<open>None\<close> is.
\<close>

definition get_regions :: "files \<Rightarrow> args \<Rightarrow> genome \<Rightarrow> bool \<Rightarrow> error + interval list" where
  "get_regions fs a g srt =
     finish_regions srt
       (case regions a of
          Some (r # rs) \<Rightarrow> collect (interval_of_region g) (r # rs)
        | _ \<Rightarrow>
           (case regions_file a of
              Some (ch # path) \<Rightarrow>
                (case open_possible_gzip fs (ch # path) of
                   Inl err \<Rightarrow> Inl err
                 | Inr inp \<Rightarrow>
                     collect (interval_of_line g)
                       (filter (\<lambda>line. \<not> starts_with_hash line) inp))
            | _ \<Rightarrow> Inr (whole_chromosomes g)))"

subsection \<open>\<open>fetch_iterator\<close>\<close>

text \<open>\<open>not args.regions and not args.regions_file\<close>\<close>

definition no_selection :: "args \<Rightarrow> bool" where
  "no_selection a =
     ((regions a = None \<or> regions a = Some []) \<and>
      (regions_file a = None \<or> regions_file a = Some []))"

text \<open>
  \<open>fetch_iterator(obj, args, genome, no_duplicates, start_attr)\<close>.  \<open>Inl\<close> is an exception
  raised by the call itself, before anything is fetched; \<open>Inr\<close> is the iterator returned,
  given by the entries it yields and the exception that ends it, if any.
\<close>

definition fetch_iterator ::
  "files \<Rightarrow> source \<Rightarrow> args \<Rightarrow> genome \<Rightarrow> bool \<Rightarrow> bool \<Rightarrow> error + (entry list \<times> error option)" where
  "fetch_iterator fs obj a g no_duplicates start_attr =
     (if no_selection a then Inr (fetch_all obj, None)
      else (case get_regions fs a g True of
              Inl err \<Rightarrow> Inl err
            | Inr rs \<Rightarrow>
                if \<not> no_duplicates then Inr (concat (map (fetch_region obj g) rs), None)
                else Inr (fetch_regions_wo_duplicates obj rs g start_attr)))"

subsection \<open>Properties of sequences of regions and of entries\<close>

text \<open>
  Regions that do not overlap pairwise: of two regions on one chromosome, the earlier
  ends where the later starts or before.
\<close>

definition non_overlapping :: "interval list \<Rightarrow> bool" where
  "non_overlapping rs =
     sorted_wrt (\<lambda>a b. chrom_id a = chrom_id b \<longrightarrow> end_pos a \<le> start b) rs"

text \<open>
  Entries in the order of their positions, for a chromosome \<open>chr\<close> and a start \<open>st\<close> of
  each entry: an earlier entry lies on an earlier chromosome, or on the same chromosome
  at a start that is not greater.
\<close>

definition position_ordered :: "(entry \<Rightarrow> nat) \<Rightarrow> (entry \<Rightarrow> int) \<Rightarrow> entry list \<Rightarrow> bool" where
  "position_ordered chr st ys =
     sorted_wrt (\<lambda>a b. chr a < chr b \<or> (chr a = chr b \<and> st a \<le> st b)) ys"

subsection \<open>Examples\<close>

text \<open>An entry whose start reads as \<open>s\<close> either way, and a region without a name.\<close>

definition ent :: "string \<Rightarrow> int \<Rightarrow> entry" where
  "ent l s = \<lparr>label = l, entry_start = Some s, entry_field1 = Some s\<rparr>"

definition reg :: "nat \<Rightarrow> int \<Rightarrow> int \<Rightarrow> interval" where
  "reg k s e = \<lparr>chrom_id = k, start = s, end_pos = e, name = None\<rparr>"

text \<open>A genome of two chromosomes, \<open>chr1\<close> of length 1000 and \<open>chr2\<close> of length 500.\<close>

definition two_chroms :: genome where
  "two_chroms =
     \<lparr>genome_chrom_id =
        (\<lambda>n. if n = ''chr1'' then Some 0 else if n = ''chr2'' then Some 1 else None),
      genome_chrom_len = (\<lambda>i. if i = 0 then 1000 else 500),
      genome_chrom_name = (\<lambda>i. if i = 0 then ''chr1'' else ''chr2''),
      chrom_lengths = [1000, 500]\<rparr>"

text \<open>A source given by a table of its range queries; a query that is not listed is empty.\<close>

definition table_source ::
  "((string \<times> int \<times> int) \<times> entry list) list \<Rightarrow> entry list \<Rightarrow> source" where
  "table_source tbl everything =
     \<lparr>fetch = (\<lambda>n s e. case map_of tbl (n, s, e) of None \<Rightarrow> [] | Some es \<Rightarrow> es),
      fetch_all = everything\<rparr>"

text \<open>Two overlapping regions of \<open>chr1\<close> that share the entries at 60 and 90.\<close>

definition overlap_source :: source where
  "overlap_source =
     table_source
       [((''chr1'', 0, 100), [ent ''a'' 10, ent ''b'' 60, ent ''c'' 90]),
        ((''chr1'', 50, 150), [ent ''b'' 60, ent ''c'' 90, ent ''d'' 120])]
       [ent ''a'' 10, ent ''b'' 60, ent ''c'' 90, ent ''d'' 120]"

text \<open>
  Two adjacent regions of \<open>chr1\<close>, the entry at 90 reaching into the second, and a region
  of \<open>chr2\<close>.
\<close>

definition adjacent_source :: source where
  "adjacent_source =
     table_source
       [((''chr1'', 0, 100), [ent ''a'' 10, ent ''b'' 90]),
        ((''chr1'', 100, 200), [ent ''b'' 90, ent ''c'' 120]),
        ((''chr2'', 0, 50), [ent ''d'' 5])]
       [ent ''a'' 10, ent ''b'' 90, ent ''c'' 120, ent ''d'' 5]"

text \<open>A source that answers the query of the empty range \<open>[30, 30)\<close> with an entry.\<close>

definition point_source :: source where
  "point_source =
     table_source
       [((''chr1'', 0, 20), [ent ''a'' 10]),
        ((''chr1'', 30, 30), [ent ''x'' 25]),
        ((''chr1'', 40, 60), [ent ''b'' 50])]
       [ent ''a'' 10, ent ''x'' 25, ent ''b'' 50]"

text \<open>A source with an entry whose start is \<open>-1\<close>.\<close>

definition telomere_source :: source where
  "telomere_source =
     table_source
       [((''chr1'', 0, 60), [ent ''t'' (- 1), ent ''b'' 50])]
       [ent ''t'' (- 1), ent ''b'' 50]"

text \<open>An entry at start 5 on each of the two chromosomes.\<close>

definition same_start_source :: source where
  "same_start_source =
     table_source
       [((''chr1'', 0, 10), [ent ''x'' 5]),
        ((''chr2'', 0, 10), [ent ''y'' 5])]
       [ent ''x'' 5, ent ''y'' 5]"

text \<open>One range query that returns two entries at start 70.\<close>

definition tie_source :: source where
  "tie_source =
     table_source
       [((''chr1'', 50, 150), [ent ''p'' 60, ent ''q'' 70, ent ''r'' 70])]
       [ent ''p'' 60, ent ''q'' 70, ent ''r'' 70]"

text \<open>The start of an example entry, and the chromosome of an entry of \<open>adjacent_source\<close>.\<close>

definition start_of :: "entry \<Rightarrow> int" where
  "start_of e = (case entry_start e of None \<Rightarrow> 0 | Some s \<Rightarrow> s)"

definition chrom_of_label :: "entry \<Rightarrow> nat" where
  "chrom_of_label e = (if label e = ''d'' then 1 else 0)"

text \<open>A line of a region file: the fields separated by tabs, ended by a line feed.\<close>

fun bed_line :: "string list \<Rightarrow> string" where
  "bed_line [] = [CHR 0x0A]"
| "bed_line [f] = f @ [CHR 0x0A]"
| "bed_line (f # fs) = f @ CHR 0x09 # bed_line fs"

text \<open>No file at all.\<close>

definition no_files :: files where
  "no_files = \<lparr>stdin_lines = [], file_lines = (\<lambda>p. None)\<rparr>"

text \<open>
  A region file with a comment, a region of \<open>chr2\<close> that ends past the chromosome, and a
  named region of \<open>chr1\<close>.
\<close>

definition bed_files :: files where
  "bed_files =
     \<lparr>stdin_lines = [],
      file_lines = (\<lambda>p. if p = ''regions.bed''
         then Some [''#chrom start end'' @ [CHR 0x0A],
                    bed_line [''chr2'', ''5'', ''900''],
                    bed_line [''chr1'', ''10'', ''20'', ''first'']]
         else None)\<rparr>"

text \<open>A region file whose second line is blank.\<close>

definition blank_files :: files where
  "blank_files =
     \<lparr>stdin_lines = [],
      file_lines = (\<lambda>p. if p = ''regions.bed''
         then Some [bed_line [''chr1'', ''10'', ''20''], [CHR 0x0A]]
         else None)\<rparr>"

section \<open>Properties\<close>

lemmas example_defs = table_source_def ent_def reg_def two_chroms_def chrom_name_def
  fetch_region_def get_start_def same_chrom_def start_threshold_def

lemmas parse_defs = interval_of_line_def interval_of_region_def parse_def py_int_def strip_def
  is_space_def is_digit_def digit_val_def py_index_def trim_def NamedInterval_def
  starts_with_hash_def open_possible_gzip_def finish_regions_def interval_key_def
  less_eq_prod_def

subsection \<open>One region\<close>

lemma scan_entries_other_chrom:
  "scan_entries start_attr False ps es = (es, None)"
  by (induction es) auto

lemma scan_entries_same_chrom:
  "\<forall>e\<in>set es. get_start sa e = Inr (st e) \<Longrightarrow>
   scan_entries sa True ps es = (filter (\<lambda>e. ps < st e) es, None)"
  by (induction es) (auto simp: not_le)

lemma region_body_readable:
  assumes "\<forall>e\<in>set (fetch_region obj g r). get_start sa e = Inr (st e)"
  shows "region_body obj g sa c r =
     (let ps = start_threshold c r; es = fetch_region obj g r
      in (if same_chrom c r then filter (\<lambda>e. ps < st e) es else es,
          Inr \<lparr>prev_chrom_id = Some (chrom_id r),
               prev_start = (if es = [] then ps else max ps (st (last es)))\<rparr>))"
proof -
  let ?es = "fetch_region obj g r"
  have l: "?es \<noteq> [] \<Longrightarrow> get_start sa (last ?es) = Inr (st (last ?es))"
    using assms by simp
  show ?thesis
  proof (cases "same_chrom c r")
    case True
    then show ?thesis
      using scan_entries_same_chrom[OF assms, of "start_threshold c r"] l
      by (simp add: region_body_def Let_def)
  next
    case False
    then show ?thesis
      using l by (simp add: region_body_def Let_def scan_entries_other_chrom)
  qed
qed

lemma region_body_other_chrom_yields:
  "\<not> same_chrom c r \<Longrightarrow> fst (region_body obj g sa c r) = fetch_region obj g r"
  by (auto simp: region_body_def Let_def scan_entries_other_chrom split: sum.splits)

subsection \<open>The whole loop\<close>

lemma regions_loop_append:
  "regions_loop obj g sa c (xs @ ys) =
     (case regions_loop obj g sa c xs of
        (o1, Inl err) \<Rightarrow> (o1, Inl err)
      | (o1, Inr c1) \<Rightarrow>
          (case regions_loop obj g sa c1 ys of (o2, r) \<Rightarrow> (o1 @ o2, r)))"
proof (induction xs arbitrary: c)
  case Nil
  show ?case by (cases "regions_loop obj g sa c ys") simp
next
  case (Cons x xs)
  obtain o1 r1 where b: "region_body obj g sa c x = (o1, r1)"
    by (cases "region_body obj g sa c x")
  show ?case
  proof (cases r1)
    case (Inl err)
    then show ?thesis using b by simp
  next
    case (Inr c1)
    obtain o2 r2 where l: "regions_loop obj g sa c1 xs = (o2, r2)"
      by (cases "regions_loop obj g sa c1 xs")
    show ?thesis
    proof (cases r2)
      case (Inl err)
      then show ?thesis using b Inr l Cons.IH[of c1] by simp
    next
      case (Inr c2)
      obtain o3 r3 where m: "regions_loop obj g sa c2 ys = (o3, r3)"
        by (cases "regions_loop obj g sa c2 ys")
      show ?thesis using b \<open>r1 = Inr c1\<close> l Inr m Cons.IH[of c1] by simp
    qed
  qed
qed


lemma region_body_cursor_chrom:
  assumes "region_body obj g sa c r = (ys, Inr c')"
  shows "prev_chrom_id c' = Some (chrom_id r)"
proof -
  obtain zs e where sc: "scan_entries sa (same_chrom c r) (start_threshold c r) (fetch_region obj g r) = (zs, e)"
    by (cases "scan_entries sa (same_chrom c r) (start_threshold c r) (fetch_region obj g r)")
  show ?thesis
  proof (cases e)
    case (Some err)
    then show ?thesis using assms sc by (simp add: region_body_def)
  next
    case None
    show ?thesis
    proof (cases "fetch_region obj g r = []")
      case True
      then show ?thesis using assms sc None by (auto simp: region_body_def)
    next
      case False
      then show ?thesis using assms sc None
        by (cases "get_start sa (last (fetch_region obj g r))") (auto simp: region_body_def)
    qed
  qed
qed

lemma regions_loop_cursor_chrom:
  "regions_loop obj g sa c xs = (ys, Inr c') \<Longrightarrow>
   prev_chrom_id c' = (if xs = [] then prev_chrom_id c else Some (chrom_id (last xs)))"
proof (induction xs arbitrary: c ys)
  case Nil
  then show ?case by simp
next
  case (Cons x xs)
  obtain o1 r1 where b: "region_body obj g sa c x = (o1, r1)"
    by (cases "region_body obj g sa c x")
  show ?case
  proof (cases r1)
    case (Inl err)
    then show ?thesis using b Cons.prems by simp
  next
    case (Inr c1)
    obtain o2 r2 where l: "regions_loop obj g sa c1 xs = (o2, r2)"
      by (cases "regions_loop obj g sa c1 xs")
    have r2: "r2 = Inr c'" using Cons.prems b Inr l by simp
    have "prev_chrom_id c1 = Some (chrom_id x)"
      using b Inr by (simp add: region_body_cursor_chrom)
    then show ?thesis using Cons.IH[of c1 o2] l r2 by simp
  qed
qed


lemma region_body_cong:
  "same_chrom c r = same_chrom d r \<Longrightarrow> start_threshold c r = start_threshold d r \<Longrightarrow>
   region_body obj g sa c r = region_body obj g sa d r"
  by (simp add: region_body_def)

lemma region_body_no_entries:
  "fetch_region obj g r = [] \<Longrightarrow>
   region_body obj g sa c r =
     ([], Inr \<lparr>prev_chrom_id = Some (chrom_id r), prev_start = start_threshold c r\<rparr>)"
  by (simp add: region_body_def)

lemma region_body_after_reset:
  assumes rd: "\<forall>e\<in>set (fetch_region obj g y). \<exists>s. 0 \<le> s \<and> get_start sa e = Inr s"
    and diff: "\<not> same_chrom c r"
    and below: "\<forall>p. prev_chrom_id c = Some p \<longrightarrow> p \<le> chrom_id r"
    and le: "chrom_id r \<le> chrom_id y"
  shows "region_body obj g sa \<lparr>prev_chrom_id = Some (chrom_id r), prev_start = - 1\<rparr> y
       = region_body obj g sa c y"
proof (cases "chrom_id y = chrom_id r")
  case True
  let ?d = "\<lparr>prev_chrom_id = Some (chrom_id r), prev_start = - 1\<rparr>"
  define st where "st e = (case get_start sa e of Inr s \<Rightarrow> s | Inl _ \<Rightarrow> 0)" for e
  have rd': "\<forall>e\<in>set (fetch_region obj g y). get_start sa e = Inr (st e)"
    using rd by (auto simp: st_def)
  have pos: "\<forall>e\<in>set (fetch_region obj g y). - 1 < st e"
    using rd by (fastforce simp: st_def)
  have sd: "same_chrom ?d y" "start_threshold ?d y = - 1"
    using True by (simp_all add: same_chrom_def start_threshold_def)
  have sc: "\<not> same_chrom c y" "start_threshold c y = - 1"
    using True diff by (simp_all add: same_chrom_def start_threshold_def)
  have f: "filter (\<lambda>e. - 1 < st e) (fetch_region obj g y) = fetch_region obj g y"
    using pos by (simp add: filter_id_conv)
  have "region_body obj g sa ?d y = (fetch_region obj g y,
      Inr \<lparr>prev_chrom_id = Some (chrom_id y),
           prev_start = (if fetch_region obj g y = [] then - 1
                         else max (- 1) (st (last (fetch_region obj g y))))\<rparr>)"
    unfolding region_body_readable[OF rd', of ?d] Let_def using sd f by simp
  moreover have "region_body obj g sa c y = (fetch_region obj g y,
      Inr \<lparr>prev_chrom_id = Some (chrom_id y),
           prev_start = (if fetch_region obj g y = [] then - 1
                         else max (- 1) (st (last (fetch_region obj g y))))\<rparr>)"
    unfolding region_body_readable[OF rd', of c] Let_def using sc by simp
  ultimately show ?thesis by simp
next
  case False
  have "\<not> same_chrom c y"
  proof
    assume "same_chrom c y"
    then have "prev_chrom_id c = Some (chrom_id y)" by (simp add: same_chrom_def)
    then have "chrom_id y \<le> chrom_id r" using below by simp
    then show False using le False by simp
  qed
  then show ?thesis
    using False by (intro region_body_cong) (simp_all add: same_chrom_def start_threshold_def)
qed


lemma regions_loop_skip_empty:
  assumes em: "fetch_region obj g r = []"
    and below: "\<forall>p. prev_chrom_id c = Some p \<longrightarrow> p \<le> chrom_id r"
    and le: "\<forall>y\<in>set (take 1 ys). chrom_id r \<le> chrom_id y"
    and rd: "\<forall>y\<in>set (take 1 ys). \<forall>e\<in>set (fetch_region obj g y). \<exists>s. 0 \<le> s \<and> get_start sa e = Inr s"
  shows "generator_result (regions_loop obj g sa c (r # ys))
       = generator_result (regions_loop obj g sa c ys)"
proof (cases "same_chrom c r")
  case True
  then have "\<lparr>prev_chrom_id = Some (chrom_id r), prev_start = start_threshold c r\<rparr> = c"
    by (simp add: same_chrom_def start_threshold_def)
  then have "region_body obj g sa c r = ([], Inr c)"
    by (simp add: region_body_no_entries[OF em])
  then have "regions_loop obj g sa c (r # ys) = regions_loop obj g sa c ys"
    by (cases "regions_loop obj g sa c ys") simp
  then show ?thesis by simp
next
  case False
  let ?d = "\<lparr>prev_chrom_id = Some (chrom_id r), prev_start = - 1\<rparr>"
  have body: "region_body obj g sa c r = ([], Inr ?d)"
    using False by (simp add: region_body_no_entries[OF em] start_threshold_def)
  have step: "regions_loop obj g sa c (r # ys) = regions_loop obj g sa ?d ys"
    by (cases "regions_loop obj g sa ?d ys") (simp add: body)
  show ?thesis
  proof (cases ys)
    case Nil
    then show ?thesis by (simp add: body)
  next
    case (Cons y ys')
    have "region_body obj g sa ?d y = region_body obj g sa c y"
      using rd le Cons by (intro region_body_after_reset[OF _ False below]) simp_all
    then have "regions_loop obj g sa ?d ys = regions_loop obj g sa c ys"
      using Cons by simp
    then show ?thesis using step by simp
  qed
qed

lemma sorted_chrom_ids:
  assumes "sorted (map interval_key rs)"
  shows "sorted (map chrom_id rs)"
proof -
  have "sorted_wrt (\<lambda>a b. interval_key a \<le> interval_key b) rs"
    using assms by (simp add: sorted_map)
  then have "sorted_wrt (\<lambda>a b. chrom_id a \<le> chrom_id b) rs"
    by (rule sorted_wrt_mono_rel[rotated]) (auto simp: interval_key_def less_eq_prod_def)
  then show ?thesis by (simp add: sorted_map)
qed

lemma position_ordered_one_chrom:
  assumes "sorted (map st es)" and "\<forall>e\<in>set es. chr e = k"
  shows "position_ordered chr st (filter P es)"
proof -
  have "sorted_wrt (\<lambda>a b. st a \<le> st b) es"
    using assms(1) by (simp add: sorted_map)
  then have "sorted_wrt (\<lambda>a b. chr a < chr b \<or> (chr a = chr b \<and> st a \<le> st b)) es"
    by (rule sorted_wrt_mono_rel[rotated]) (use assms(2) in auto)
  then show ?thesis
    unfolding position_ordered_def by (rule sorted_wrt_filter)
qed

lemma st_le_last:
  "sorted (map st es) \<Longrightarrow> e \<in> set es \<Longrightarrow> st e \<le> st (last es)"
  by (induction es) auto

lemma region_body_ordered:
  assumes rd: "\<forall>e\<in>set (fetch_region obj g r). get_start sa e = Inr (st e) \<and> chr e = chrom_id r"
    and so: "sorted (map st (fetch_region obj g r))"
  shows "\<exists>ys c'. region_body obj g sa c r = (ys, Inr c')
      \<and> prev_chrom_id c' = Some (chrom_id r)
      \<and> position_ordered chr st ys
      \<and> (\<forall>y\<in>set ys. chr y = chrom_id r \<and> st y \<le> prev_start c'
             \<and> (same_chrom c r \<longrightarrow> prev_start c < st y))
      \<and> (same_chrom c r \<longrightarrow> prev_start c \<le> prev_start c')"
proof -
  let ?es = "fetch_region obj g r"
  let ?ps = "start_threshold c r"
  let ?ys = "if same_chrom c r then filter (\<lambda>e. ?ps < st e) ?es else ?es"
  let ?c' = "\<lparr>prev_chrom_id = Some (chrom_id r),
               prev_start = (if ?es = [] then ?ps else max ?ps (st (last ?es)))\<rparr>"
  have rd': "\<forall>e\<in>set ?es. get_start sa e = Inr (st e)" using rd by simp
  have body: "region_body obj g sa c r = (?ys, Inr ?c')"
    using region_body_readable[OF rd', of c] by (simp add: Let_def)
  have sub: "set ?ys \<subseteq> set ?es" by auto
  have ord: "position_ordered chr st ?ys"
  proof -
    have "position_ordered chr st (filter P ?es)" for P
      using so rd by (intro position_ordered_one_chrom[where k = "chrom_id r"]) auto
    from this[of "\<lambda>e. ?ps < st e"] this[of "\<lambda>_. True"] show ?thesis by simp
  qed
  have each: "chr y = chrom_id r \<and> st y \<le> prev_start ?c'
        \<and> (same_chrom c r \<longrightarrow> prev_start c < st y)" if "y \<in> set ?ys" for y
  proof -
    have y: "y \<in> set ?es" using that sub by blast
    then have ne: "?es \<noteq> []" by auto
    have "st y \<le> st (last ?es)" using so y by (rule st_le_last)
    moreover have "same_chrom c r \<Longrightarrow> prev_start c < st y"
      using that by (simp add: start_threshold_def)
    ultimately show ?thesis using rd y ne by simp
  qed
  have mono: "same_chrom c r \<longrightarrow> prev_start c \<le> prev_start ?c'"
    by (simp add: start_threshold_def)
  show ?thesis using body ord each mono by (intro exI[of _ ?ys] exI[of _ ?c']) simp
qed

lemma regions_loop_ordered:
  assumes "sorted (map chrom_id rs)"
    and "\<forall>r\<in>set rs. \<forall>e\<in>set (fetch_region obj g r). get_start sa e = Inr (st e) \<and> chr e = chrom_id r"
    and "\<forall>r\<in>set rs. sorted (map st (fetch_region obj g r))"
    and "\<forall>p. prev_chrom_id c = Some p \<longrightarrow> (\<forall>r\<in>set rs. p \<le> chrom_id r)"
  shows "\<exists>ys c'. regions_loop obj g sa c rs = (ys, Inr c')
      \<and> position_ordered chr st ys
      \<and> (\<forall>y\<in>set ys. chr y \<in> chrom_id ` set rs
            \<and> (prev_chrom_id c = Some (chr y) \<longrightarrow> prev_start c < st y))"
  using assms
proof (induction rs arbitrary: c)
  case Nil
  then show ?case by (simp add: position_ordered_def)
next
  case (Cons r rs)
  have rd: "\<forall>e\<in>set (fetch_region obj g r). get_start sa e = Inr (st e) \<and> chr e = chrom_id r"
    using Cons.prems(2) by simp
  have so: "sorted (map st (fetch_region obj g r))" using Cons.prems(3) by simp
  from region_body_ordered[OF rd so, of c]
  obtain ys1 c1 where body: "region_body obj g sa c r = (ys1, Inr c1)"
    and pc1: "prev_chrom_id c1 = Some (chrom_id r)"
    and ord1: "position_ordered chr st ys1"
    and each1: "\<forall>y\<in>set ys1. chr y = chrom_id r \<and> st y \<le> prev_start c1
             \<and> (same_chrom c r \<longrightarrow> prev_start c < st y)"
    and mono: "same_chrom c r \<longrightarrow> prev_start c \<le> prev_start c1"
    by blast
  have later: "\<forall>r'\<in>set rs. chrom_id r \<le> chrom_id r'"
    using Cons.prems(1) by simp
  have "\<exists>zs c'. regions_loop obj g sa c1 rs = (zs, Inr c')
      \<and> position_ordered chr st zs
      \<and> (\<forall>z\<in>set zs. chr z \<in> chrom_id ` set rs
            \<and> (prev_chrom_id c1 = Some (chr z) \<longrightarrow> prev_start c1 < st z))"
    using Cons.prems later pc1 by (intro Cons.IH) auto
  then obtain zs c' where rest: "regions_loop obj g sa c1 rs = (zs, Inr c')"
    and ord2: "position_ordered chr st zs"
    and each2: "\<forall>z\<in>set zs. chr z \<in> chrom_id ` set rs
            \<and> (prev_chrom_id c1 = Some (chr z) \<longrightarrow> prev_start c1 < st z)"
    by blast
  have loop: "regions_loop obj g sa c (r # rs) = (ys1 @ zs, Inr c')"
    by (simp add: body rest)
  have cross: "chr y < chr z \<or> (chr y = chr z \<and> st y \<le> st z)"
    if "y \<in> set ys1" "z \<in> set zs" for y z
  proof -
    have y: "chr y = chrom_id r" "st y \<le> prev_start c1" using each1 that(1) by auto
    have "chr z \<in> chrom_id ` set rs" using each2 that(2) by simp
    then have le: "chrom_id r \<le> chr z" using later by auto
    show ?thesis
    proof (cases "chr z = chrom_id r")
      case True
      then have "prev_start c1 < st z" using each2 that(2) pc1 by simp
      then show ?thesis using y True by simp
    next
      case False
      then show ?thesis using le y by simp
    qed
  qed
  have ord: "position_ordered chr st (ys1 @ zs)"
    using ord1 ord2 cross by (simp add: position_ordered_def sorted_wrt_append)
  have each: "chr y \<in> chrom_id ` set (r # rs)
        \<and> (prev_chrom_id c = Some (chr y) \<longrightarrow> prev_start c < st y)"
    if "y \<in> set (ys1 @ zs)" for y
  proof (cases "y \<in> set ys1")
    case True
    then show ?thesis using each1 by (auto simp: same_chrom_def)
  next
    case False
    then have z: "y \<in> set zs" using that by simp
    then have mem: "chr y \<in> chrom_id ` set rs" using each2 by simp
    have "prev_start c < st y" if pc: "prev_chrom_id c = Some (chr y)"
    proof -
      have "chr y \<le> chrom_id r" using Cons.prems(4) pc by simp
      moreover have "chrom_id r \<le> chr y" using mem later by auto
      ultimately have eq: "chr y = chrom_id r" by simp
      then have "same_chrom c r" using pc by (simp add: same_chrom_def)
      then have "prev_start c \<le> prev_start c1" using mono by simp
      moreover have "prev_start c1 < st y" using each2 z pc1 eq by simp
      ultimately show ?thesis by simp
    qed
    then show ?thesis using mem by simp
  qed
  show ?case using loop ord each by blast
qed

subsection \<open>The deduplicating generator\<close>

text \<open>
  Claim C1.  Two overlapping regions \<open>A = [0, 100)\<close> and \<open>B = [50, 150)\<close> of one
  chromosome are processed in the order \<open>A\<close>, \<open>B\<close>.  If the range query returns entries
  at the starts 10, 60, 90 for \<open>A\<close> and at the starts 60, 90, 120 for \<open>B\<close>, the generator
  yields exactly the three entries of \<open>A\<close> and then the entry of \<open>B\<close> at 120: the entries
  of \<open>B\<close> whose start is at most 90, the greatest start seen in \<open>A\<close>, are suppressed, and
  the generator ends without an exception.
\<close>

theorem dedup_overlapping_regions:
  assumes A: "A = \<lparr>chrom_id = k, start = 0, end_pos = 100, name = nA\<rparr>"
    and B: "B = \<lparr>chrom_id = k, start = 50, end_pos = 150, name = nB\<rparr>"
    and fA: "fetch_region obj g A = [a10, a60, a90]"
    and fB: "fetch_region obj g B = [b60, b90, b120]"
    and sA: "get_start sa a10 = Inr 10" "get_start sa a60 = Inr 60" "get_start sa a90 = Inr 90"
    and sB: "get_start sa b60 = Inr 60" "get_start sa b90 = Inr 90" "get_start sa b120 = Inr 120"
  shows "fetch_regions_wo_duplicates obj [A, B] g sa = ([a10, a60, a90, b120], None)"
proof -
  have bodyA: "region_body obj g sa initial_cursor A =
      ([a10, a60, a90], Inr \<lparr>prev_chrom_id = Some k, prev_start = 90\<rparr>)"
    using fA sA
    by (simp add: region_body_def initial_cursor_def A same_chrom_def start_threshold_def
        scan_entries_other_chrom)
  have bodyB: "region_body obj g sa \<lparr>prev_chrom_id = Some k, prev_start = 90\<rparr> B =
      ([b120], Inr \<lparr>prev_chrom_id = Some k, prev_start = 120\<rparr>)"
    using fB sB by (simp add: region_body_def B same_chrom_def start_threshold_def)
  show ?thesis
    by (simp add: fetch_regions_wo_duplicates_def bodyA bodyB)
qed

theorem dedup_overlapping_regions_witness:
  "fetch_regions_wo_duplicates overlap_source [reg 0 0 100, reg 0 50 150] two_chroms False
     = ([ent ''a'' 10, ent ''b'' 60, ent ''c'' 90, ent ''d'' 120], None)"
  using dedup_overlapping_regions [of "reg 0 0 100" 0 None "reg 0 50 150" None
      overlap_source two_chroms "ent ''a'' 10" "ent ''b'' 60" "ent ''c'' 90"
      "ent ''b'' 60" "ent ''c'' 90" "ent ''d'' 120" False]
  by (simp add: overlap_source_def example_defs)

text \<open>
  Claim C2.  For regions sorted by \<open>(chrom_id, start, end)\<close> that do not overlap pairwise,
  and a source whose range query returns entries of the region's chromosome with starts
  that do not decrease within one query, the generator ends without an exception and the
  entries it yields are in the order of their positions: chromosomes do not decrease, and
  within one chromosome the starts do not decrease.  Every chromosome of the output is
  the chromosome of a region.
\<close>

theorem ordered_output_for_sorted_regions:
  assumes "sorted (map interval_key rs)"
    and "non_overlapping rs"
    and "\<forall>r\<in>set rs. sorted (map st (fetch_region obj g r))"
    and "\<forall>r\<in>set rs. \<forall>e\<in>set (fetch_region obj g r). get_start sa e = Inr (st e) \<and> chr e = chrom_id r"
  shows "\<exists>ys. fetch_regions_wo_duplicates obj rs g sa = (ys, None)
       \<and> position_ordered chr st ys
       \<and> chr ` set ys \<subseteq> chrom_id ` set rs"
proof -
  have "\<exists>ys c'. regions_loop obj g sa initial_cursor rs = (ys, Inr c')
      \<and> position_ordered chr st ys
      \<and> (\<forall>y\<in>set ys. chr y \<in> chrom_id ` set rs
            \<and> (prev_chrom_id initial_cursor = Some (chr y) \<longrightarrow> prev_start initial_cursor < st y))"
    using assms(3,4) sorted_chrom_ids[OF assms(1)]
    by (intro regions_loop_ordered) (simp_all add: initial_cursor_def)
  then obtain ys c' where "regions_loop obj g sa initial_cursor rs = (ys, Inr c')"
    and "position_ordered chr st ys" and "\<forall>y\<in>set ys. chr y \<in> chrom_id ` set rs"
    by blast
  then show ?thesis
    by (auto simp: fetch_regions_wo_duplicates_def)
qed

theorem ordered_output_for_sorted_regions_witness:
  "fetch_regions_wo_duplicates adjacent_source [reg 0 0 100, reg 0 100 200, reg 1 0 50] two_chroms True
     = ([ent ''a'' 10, ent ''b'' 90, ent ''c'' 120, ent ''d'' 5], None)
   \<and> position_ordered chrom_of_label start_of [ent ''a'' 10, ent ''b'' 90, ent ''c'' 120, ent ''d'' 5]"
proof -
  let ?rs = "[reg 0 0 100, reg 0 100 200, reg 1 0 50]"
  have 1: "sorted (map interval_key ?rs)"
    by (simp add: interval_key_def reg_def less_eq_prod_def)
  have 2: "non_overlapping ?rs"
    by (simp add: non_overlapping_def reg_def)
  have 3: "\<forall>r\<in>set ?rs. sorted (map start_of (fetch_region adjacent_source two_chroms r))"
    by (simp add: adjacent_source_def start_of_def example_defs)
  have 4: "\<forall>r\<in>set ?rs. \<forall>e\<in>set (fetch_region adjacent_source two_chroms r).
      get_start True e = Inr (start_of e) \<and> chrom_of_label e = chrom_id r"
    by (simp add: adjacent_source_def start_of_def chrom_of_label_def example_defs)
  have 5: "fetch_regions_wo_duplicates adjacent_source ?rs two_chroms True
     = ([ent ''a'' 10, ent ''b'' 90, ent ''c'' 120, ent ''d'' 5], None)"
    by (simp add: fetch_regions_wo_duplicates_def initial_cursor_def region_body_def
        adjacent_source_def example_defs)
  from ordered_output_for_sorted_regions[OF 1 2 3 4] 5 show ?thesis by simp
qed

text \<open>
  Claim C3.  When a region has been processed without an exception, the cursor holds the
  region's chromosome.  If the range query returned no entry, \<open>prev_start\<close> is the value
  it had when the query was made (its value before the region, or \<open>-1\<close> after a change
  of chromosome); otherwise it is the maximum of that value and the start of the last
  entry the query returned, whether that entry was yielded or not.  So on the chromosome
  of the region before, \<open>prev_start\<close> is unchanged by an empty query and never decreases.
  A region all of whose entries have a readable start is processed without an exception.
\<close>

theorem cursor_update_after_region:
  "(region_body obj g sa c r = (ys, Inr c') \<longrightarrow>
       prev_chrom_id c' = Some (chrom_id r)
     \<and> (fetch_region obj g r = [] \<longrightarrow> prev_start c' = start_threshold c r)
     \<and> (fetch_region obj g r \<noteq> [] \<longrightarrow>
          (\<exists>s. get_start sa (last (fetch_region obj g r)) = Inr s
             \<and> prev_start c' = max (start_threshold c r) s))
     \<and> (same_chrom c r \<and> fetch_region obj g r = [] \<longrightarrow> prev_start c' = prev_start c)
     \<and> (same_chrom c r \<longrightarrow> prev_start c \<le> prev_start c'))
   \<and> ((\<forall>e\<in>set (fetch_region obj g r). get_start sa e = Inr (st e)) \<longrightarrow>
        (\<exists>zs d. region_body obj g sa c r = (zs, Inr d)))"
proof (intro conjI impI)
  assume "\<forall>e\<in>set (fetch_region obj g r). get_start sa e = Inr (st e)"
  from region_body_readable[OF this, of c]
  show "\<exists>zs d. region_body obj g sa c r = (zs, Inr d)"
    by (simp add: Let_def)
qed (auto simp: region_body_def Let_def start_threshold_def
      split: prod.splits option.splits sum.splits if_splits)

theorem cursor_update_after_region_witness:
  "region_body overlap_source two_chroms True \<lparr>prev_chrom_id = Some 0, prev_start = 150\<rparr> (reg 0 50 150)
     = ([], Inr \<lparr>prev_chrom_id = Some 0, prev_start = 150\<rparr>)
   \<and> get_start True (last (fetch_region overlap_source two_chroms (reg 0 50 150))) = Inr 120
   \<and> region_body overlap_source two_chroms True \<lparr>prev_chrom_id = Some 0, prev_start = 70\<rparr> (reg 0 50 150)
     = ([ent ''c'' 90, ent ''d'' 120], Inr \<lparr>prev_chrom_id = Some 0, prev_start = 120\<rparr>)"
  using cursor_update_after_region [where obj = overlap_source and g = two_chroms and sa = True
      and c = "\<lparr>prev_chrom_id = Some 0, prev_start = 150\<rparr>" and r = "reg 0 50 150" and ys = "[]"
      and c' = "\<lparr>prev_chrom_id = Some 0, prev_start = 150\<rparr>" and st = start_of]
  by (simp add: region_body_def overlap_source_def example_defs)

text \<open>
  Claim C4.  When the chromosome of a region differs from the chromosome of the region
  before, the region is processed as it is from a cursor whose \<open>prev_start\<close> is \<open>-1\<close>, and
  every entry its range query returns is yielded.  In the example an entry at start 5 on
  the second chromosome is yielded after an entry at start 5 on the first.
\<close>

theorem chromosome_switch_resets_cursor:
  assumes "prev_chrom_id c = Some k" and "chrom_id r \<noteq> k"
  shows "region_body obj g sa c r = region_body obj g sa (c\<lparr>prev_start := - 1\<rparr>) r
       \<and> fst (region_body obj g sa c r) = fetch_region obj g r"
proof -
  have ns: "\<not> same_chrom c r" using assms by (auto simp: same_chrom_def)
  have 1: "region_body obj g sa c r = region_body obj g sa (c\<lparr>prev_start := - 1\<rparr>) r"
    using ns by (intro region_body_cong) (simp_all add: same_chrom_def start_threshold_def)
  have 2: "fst (region_body obj g sa c r) = fetch_region obj g r"
    using ns by (rule region_body_other_chrom_yields)
  show ?thesis using 1 2 by (rule conjI)
qed

theorem chromosome_switch_resets_cursor_witness:
  "fst (region_body same_start_source two_chroms True
          \<lparr>prev_chrom_id = Some 0, prev_start = 5\<rparr> (reg 1 0 10)) = [ent ''y'' 5]
   \<and> fetch_regions_wo_duplicates same_start_source [reg 0 0 10, reg 1 0 10] two_chroms True
       = ([ent ''x'' 5, ent ''y'' 5], None)"
proof -
  have 1: "prev_chrom_id \<lparr>prev_chrom_id = Some 0, prev_start = 5\<rparr> = Some (0::nat)" by simp
  have 2: "chrom_id (reg 1 0 10) \<noteq> 0" by (simp add: reg_def)
  have 3: "fetch_regions_wo_duplicates same_start_source [reg 0 0 10, reg 1 0 10] two_chroms True
       = ([ent ''x'' 5, ent ''y'' 5], None)"
    by (simp add: fetch_regions_wo_duplicates_def initial_cursor_def region_body_def
        same_start_source_def example_defs)
  have 4: "fetch_region same_start_source two_chroms (reg 1 0 10) = [ent ''y'' 5]"
    by (simp add: same_start_source_def example_defs)
  have "fst (region_body same_start_source two_chroms True
          \<lparr>prev_chrom_id = Some 0, prev_start = 5\<rparr> (reg 1 0 10))
        = fetch_region same_start_source two_chroms (reg 1 0 10)"
    using chromosome_switch_resets_cursor[OF 1 2, of same_start_source two_chroms True]
    by (rule conjunct2)
  then show ?thesis using 3 4 by simp
qed

text \<open>
  Claim C5, as the claim states it, fails: the generator never compares \<open>start\<close> and
  \<open>end\<close> of a region.  It makes the range query of an empty region like any other and
  yields what the query returns.  Here the regions are sorted and the source answers the
  query of the empty region \<open>[30, 30)\<close> with an entry, which is yielded, so that the
  output differs from the output without that region.  The cursor is not carried forward
  either when an empty region opens a chromosome: for the empty region \<open>[0, 0)\<close> of
  \<open>chr2\<close>, whose query returns nothing, \<open>prev_start\<close> goes from 50 to \<open>-1\<close>.
\<close>

theorem empty_region_counterexample:
  "start (reg 0 30 30) = end_pos (reg 0 30 30)
   \<and> sorted (map interval_key [reg 0 0 20, reg 0 30 30, reg 0 40 60])
   \<and> fetch_regions_wo_duplicates point_source [reg 0 0 20, reg 0 30 30, reg 0 40 60] two_chroms True
       = ([ent ''a'' 10, ent ''x'' 25, ent ''b'' 50], None)
   \<and> fetch_regions_wo_duplicates point_source [reg 0 0 20, reg 0 40 60] two_chroms True
       = ([ent ''a'' 10, ent ''b'' 50], None)
   \<and> fetch_region point_source two_chroms (reg 1 0 0) = []
   \<and> region_body point_source two_chroms True
         \<lparr>prev_chrom_id = Some 0, prev_start = 50\<rparr> (reg 1 0 0)
       = ([], Inr \<lparr>prev_chrom_id = Some 1, prev_start = - 1\<rparr>)"
  by (simp add: fetch_regions_wo_duplicates_def initial_cursor_def region_body_def
      point_source_def example_defs interval_key_def less_eq_prod_def)

text \<open>
  The second condition of the amended claim is needed as well: a region without entries
  that opens a run of a chromosome turns the suppression on for the region after it, at
  the threshold \<open>-1\<close>, and an entry at start \<open>-1\<close> is then suppressed.
\<close>

lemma empty_region_before_negative_start:
  "fetch_region telomere_source two_chroms (reg 0 0 0) = []
   \<and> fetch_regions_wo_duplicates telomere_source [reg 0 0 0, reg 0 0 60] two_chroms True
       = ([ent ''b'' 50], None)
   \<and> fetch_regions_wo_duplicates telomere_source [reg 0 0 60] two_chroms True
       = ([ent ''t'' (- 1), ent ''b'' 50], None)"
  by (simp add: fetch_regions_wo_duplicates_def initial_cursor_def region_body_def
      telomere_source_def example_defs)

text \<open>
  Claim C5, amended.  Let a region \<open>r\<close> whose range query returns no entry stand anywhere
  in a sequence of regions sorted by \<open>(chrom_id, start, end)\<close>, and let the starts of the
  entries of the region right after \<open>r\<close>, if there is one, be readable and not negative.
  Then the generator yields the same entries, and ends in the same way, as for the
  sequence without \<open>r\<close>.  Processing \<open>r\<close> yields nothing and leaves \<open>prev_start\<close> at the
  value it had when the query was made; when \<open>r\<close> lies on the chromosome of the region
  before, the cursor is unchanged.
\<close>

theorem region_without_entries_is_skipped:
  assumes so: "sorted (map interval_key (xs @ r # ys))"
    and em: "fetch_region obj g r = []"
    and rd: "\<forall>y\<in>set (take 1 ys). \<forall>e\<in>set (fetch_region obj g y).
               \<exists>s. 0 \<le> s \<and> get_start sa e = Inr s"
  shows "fetch_regions_wo_duplicates obj (xs @ r # ys) g sa
           = fetch_regions_wo_duplicates obj (xs @ ys) g sa
       \<and> (\<forall>c. region_body obj g sa c r =
             ([], Inr \<lparr>prev_chrom_id = Some (chrom_id r), prev_start = start_threshold c r\<rparr>))
       \<and> (\<forall>c. same_chrom c r \<longrightarrow> region_body obj g sa c r = ([], Inr c))"
proof -
  have ch: "sorted (map chrom_id (xs @ r # ys))" using so by (rule sorted_chrom_ids)
  have before: "\<forall>x\<in>set xs. chrom_id x \<le> chrom_id r"
    using ch by (simp add: sorted_append)
  have after: "\<forall>y\<in>set (take 1 ys). chrom_id r \<le> chrom_id y"
    using ch by (auto simp: sorted_append dest: in_set_takeD)
  obtain o1 r1 where x: "regions_loop obj g sa initial_cursor xs = (o1, r1)"
    by (cases "regions_loop obj g sa initial_cursor xs")
  have main: "generator_result (regions_loop obj g sa initial_cursor (xs @ r # ys))
      = generator_result (regions_loop obj g sa initial_cursor (xs @ ys))"
  proof (cases r1)
    case (Inl err)
    then show ?thesis using x by (simp add: regions_loop_append)
  next
    case (Inr c1)
    have "prev_chrom_id c1 = (if xs = [] then prev_chrom_id initial_cursor
                              else Some (chrom_id (last xs)))"
      using x Inr by (intro regions_loop_cursor_chrom) simp
    then have below: "\<forall>p. prev_chrom_id c1 = Some p \<longrightarrow> p \<le> chrom_id r"
      using before by (auto simp: initial_cursor_def split: if_splits)
    have skip: "generator_result (regions_loop obj g sa c1 (r # ys))
        = generator_result (regions_loop obj g sa c1 ys)"
      using em below after rd by (rule regions_loop_skip_empty)
    obtain o2 r2 where a: "regions_loop obj g sa c1 (r # ys) = (o2, r2)"
      by (cases "regions_loop obj g sa c1 (r # ys)")
    obtain o3 r3 where b: "regions_loop obj g sa c1 ys = (o3, r3)"
      by (cases "regions_loop obj g sa c1 ys")
    have "generator_result (o1 @ o2, r2) = generator_result (o1 @ o3, r3)"
      using skip a b by (cases r2; cases r3) simp_all
    then show ?thesis
      using x Inr a b by (simp add: regions_loop_append)
  qed
  have noent: "region_body obj g sa c r =
      ([], Inr \<lparr>prev_chrom_id = Some (chrom_id r), prev_start = start_threshold c r\<rparr>)" for c
    using em by (rule region_body_no_entries)
  have same: "region_body obj g sa c r = ([], Inr c)" if "same_chrom c r" for c
    using that noent[of c] by (simp add: same_chrom_def start_threshold_def)
  show ?thesis
    using main noent same by (simp add: fetch_regions_wo_duplicates_def)
qed

theorem region_without_entries_is_skipped_witness:
  "fetch_regions_wo_duplicates overlap_source [reg 0 0 100, reg 0 30 30, reg 0 50 150] two_chroms True
     = fetch_regions_wo_duplicates overlap_source [reg 0 0 100, reg 0 50 150] two_chroms True
   \<and> fetch_regions_wo_duplicates overlap_source [reg 0 0 100, reg 0 30 30, reg 0 50 150] two_chroms True
     = ([ent ''a'' 10, ent ''b'' 60, ent ''c'' 90, ent ''d'' 120], None)
   \<and> region_body overlap_source two_chroms True \<lparr>prev_chrom_id = Some 0, prev_start = 90\<rparr> (reg 0 30 30)
     = ([], Inr \<lparr>prev_chrom_id = Some 0, prev_start = 90\<rparr>)"
proof -
  have 1: "sorted (map interval_key ([reg 0 0 100] @ reg 0 30 30 # [reg 0 50 150]))"
    by (simp add: interval_key_def reg_def less_eq_prod_def)
  have 2: "fetch_region overlap_source two_chroms (reg 0 30 30) = []"
    by (simp add: overlap_source_def example_defs)
  have 3: "\<forall>y\<in>set (take 1 [reg 0 50 150]). \<forall>e\<in>set (fetch_region overlap_source two_chroms y).
      \<exists>s. 0 \<le> s \<and> get_start True e = Inr s"
    by (simp add: overlap_source_def example_defs)
  have 4: "same_chrom \<lparr>prev_chrom_id = Some 0, prev_start = 90\<rparr> (reg 0 30 30)"
    by (simp add: same_chrom_def reg_def)
  have 5: "fetch_regions_wo_duplicates overlap_source [reg 0 0 100, reg 0 50 150] two_chroms True
     = ([ent ''a'' 10, ent ''b'' 60, ent ''c'' 90, ent ''d'' 120], None)"
    by (simp add: fetch_regions_wo_duplicates_def initial_cursor_def region_body_def
        overlap_source_def example_defs)
  from region_without_entries_is_skipped[OF 1 2 3] 4 5 show ?thesis
    by (simp add: same_chrom_def start_threshold_def reg_def)
qed

text \<open>
  Claim C9.  Within one region, whether an entry is suppressed depends only on the cursor
  the region started from: on the chromosome of the region before, exactly the entries
  whose start is greater than that \<open>prev_start\<close> are yielded, each as often as the query
  returned it and in the query's order; on another chromosome, and for the first region,
  every entry is yielded.  In the example two entries at start 70 follow a cursor at 60,
  and both are yielded.
\<close>

theorem suppression_only_against_earlier_regions:
  assumes "same_chrom c r \<Longrightarrow> \<forall>e\<in>set (fetch_region obj g r). get_start sa e = Inr (st e)"
  shows "fst (region_body obj g sa c r) =
     (if same_chrom c r then filter (\<lambda>e. prev_start c < st e) (fetch_region obj g r)
      else fetch_region obj g r)"
proof (cases "same_chrom c r")
  case True
  with assms have "\<forall>e\<in>set (fetch_region obj g r). get_start sa e = Inr (st e)" by simp
  from region_body_readable[OF this, of c] True show ?thesis
    by (simp add: Let_def start_threshold_def)
next
  case False
  then show ?thesis by (simp add: region_body_other_chrom_yields)
qed

theorem suppression_only_against_earlier_regions_witness:
  "fst (region_body tie_source two_chroms True
          \<lparr>prev_chrom_id = Some 0, prev_start = 60\<rparr> (reg 0 50 150))
     = [ent ''q'' 70, ent ''r'' 70]
   \<and> fst (region_body tie_source two_chroms True initial_cursor (reg 0 50 150))
     = [ent ''p'' 60, ent ''q'' 70, ent ''r'' 70]"
proof -
  have 1: "\<forall>e\<in>set (fetch_region tie_source two_chroms (reg 0 50 150)).
      get_start True e = Inr (start_of e)"
    by (simp add: tie_source_def start_of_def example_defs)
  from suppression_only_against_earlier_regions[of "\<lparr>prev_chrom_id = Some 0, prev_start = 60\<rparr>"
      "reg 0 50 150" tie_source two_chroms True start_of, OF 1]
    suppression_only_against_earlier_regions[of initial_cursor
      "reg 0 50 150" tie_source two_chroms True start_of, OF 1]
  show ?thesis
    by (simp add: tie_source_def start_of_def initial_cursor_def example_defs)
qed

subsection \<open>Building the region set\<close>

lemma collect_isl:
  "isl (collect f xs) \<longleftrightarrow> (\<exists>x\<in>set xs. isl (f x))"
proof (induction xs)
  case Nil
  show ?case by simp
next
  case (Cons x xs)
  show ?case
  proof (cases "f x")
    case (Inl err)
    then show ?thesis by simp
  next
    case (Inr y)
    then show ?thesis using Cons.IH by (cases "collect f xs") simp_all
  qed
qed

lemma collect_Inr:
  "collect f xs = Inr ys \<longleftrightarrow> list_all2 (\<lambda>x y. f x = Inr y) xs ys"
proof (induction xs arbitrary: ys)
  case Nil
  show ?case by auto
next
  case (Cons x xs)
  show ?case
  proof (cases "f x")
    case (Inl err)
    then show ?thesis by (auto simp: list_all2_Cons1)
  next
    case (Inr y)
    show ?thesis
    proof (cases "collect f xs")
      case (Inl err)
      then have "\<not> list_all2 (\<lambda>x y. f x = Inr y) xs zs" for zs
        using Cons.IH[of zs] by simp
      then show ?thesis using Inr Inl by (auto simp: list_all2_Cons1)
    next
      case r: (Inr zs)
      have c: "collect f (x # xs) = Inr (y # zs)" using Inr r by simp
      have u: "list_all2 (\<lambda>x y. f x = Inr y) xs zs' \<longleftrightarrow> zs' = zs" for zs'
        using Cons.IH[of zs'] r by auto
      have "list_all2 (\<lambda>x y. f x = Inr y) (x # xs) ys \<longleftrightarrow> ys = y # zs"
        using Inr u by (auto simp: list_all2_Cons1)
      then show ?thesis using c by auto
    qed
  qed
qed

lemma finish_regions_isl: "isl (finish_regions srt res) = isl res"
  by (cases res) (simp_all add: finish_regions_def)

lemma whole_chromosomes_eq:
  "whole_chromosomes g =
     map (\<lambda>i. \<lparr>chrom_id = i, start = 0, end_pos = chrom_lengths g ! i,
               name = Some (genome_chrom_name g i)\<rparr>) [0..<length (chrom_lengths g)]"
  by (rule nth_equalityI) (simp_all add: whole_chromosomes_def NamedInterval_def nth_enumerate_eq)

lemma whole_chromosomes_sorted:
  "sorted (map interval_key (whole_chromosomes g))"
proof -
  have "sorted_wrt (\<lambda>i j. (i, 0::int, chrom_lengths g ! i) \<le> (j, 0, chrom_lengths g ! j))
          [0..<length (chrom_lengths g)]"
    by (rule sorted_wrt_mono_rel[of _ "(<)"]) (simp_all add: less_eq_prod_def)
  then show ?thesis
    by (simp add: whole_chromosomes_eq sorted_map sorted_wrt_map interval_key_def comp_def)
qed

lemma finish_whole_chromosomes:
  "finish_regions srt (Inr (whole_chromosomes g)) = Inr (whole_chromosomes g)"
  by (simp add: finish_regions_def sort_key_id_if_sorted whole_chromosomes_sorted)

lemma interval_of_line_blank:
  assumes "strip l = []"
  shows "isl (interval_of_line g l)"
proof (cases "genome_chrom_id g []")
  case None
  then show ?thesis using assms by (simp add: interval_of_line_def py_index_def)
next
  case (Some cid)
  then show ?thesis using assms by (simp add: interval_of_line_def py_index_def)
qed

lemma interval_of_line_Inr:
  assumes "interval_of_line g l = Inr iv"
  shows "3 \<le> length (split_on (CHR 0x09) (strip l))
       \<and> (\<exists>cid s e.
             genome_chrom_id g (split_on (CHR 0x09) (strip l) ! 0) = Some cid
           \<and> py_int (split_on (CHR 0x09) (strip l) ! 1) = Inr s
           \<and> py_int (split_on (CHR 0x09) (strip l) ! 2) = Inr e
           \<and> iv = trim (NamedInterval cid s e g
                   (if 3 < length (split_on (CHR 0x09) (strip l))
                    then Some (split_on (CHR 0x09) (strip l) ! 3) else None)) g)"
  using assms
  by (auto simp: interval_of_line_def py_index_def Let_def
      split: sum.splits option.splits if_splits)

text \<open>
  Claim C7.  \<open>get_regions\<close> takes exactly one of three paths.  With an explicit list of
  regions that is not empty, the result is built from the list alone: it is the same for
  any files and for any value of \<open>regions_file\<close>, so that no file is read.  Without such
  a list and with a region file, the result is built from the lines of the file alone.
  With neither, the result is one interval per chromosome, from 0 to the chromosome's
  length and named after the chromosome, in the order of the genome, whether the result
  is sorted or not.
\<close>

theorem get_regions_takes_one_path:
  "(regions a = Some (r # rs) \<longrightarrow>
      get_regions fs a g srt = finish_regions srt (collect (interval_of_region g) (r # rs))
    \<and> get_regions fs a g srt = get_regions fs' (a\<lparr>regions_file := f\<rparr>) g srt)
   \<and> ((regions a = None \<or> regions a = Some []) \<and> regions_file a = Some (ch # path) \<longrightarrow>
      get_regions fs a g srt =
        (case open_possible_gzip fs (ch # path) of
           Inl err \<Rightarrow> Inl err
         | Inr inp \<Rightarrow>
             finish_regions srt
               (collect (interval_of_line g) (filter (\<lambda>line. \<not> starts_with_hash line) inp))))
   \<and> ((regions a = None \<or> regions a = Some []) \<and>
       (regions_file a = None \<or> regions_file a = Some []) \<longrightarrow>
      get_regions fs a g srt =
        Inr (map (\<lambda>i. \<lparr>chrom_id = i, start = 0, end_pos = chrom_lengths g ! i,
                        name = Some (genome_chrom_name g i)\<rparr>)
               [0..<length (chrom_lengths g)]))"
proof (intro conjI impI)
  assume "regions a = Some (r # rs)"
  then show "get_regions fs a g srt = finish_regions srt (collect (interval_of_region g) (r # rs))"
    and "get_regions fs a g srt = get_regions fs' (a\<lparr>regions_file := f\<rparr>) g srt"
    by (simp_all add: get_regions_def)
next
  assume "(regions a = None \<or> regions a = Some []) \<and> regions_file a = Some (ch # path)"
  then show "get_regions fs a g srt =
        (case open_possible_gzip fs (ch # path) of
           Inl err \<Rightarrow> Inl err
         | Inr inp \<Rightarrow>
             finish_regions srt
               (collect (interval_of_line g) (filter (\<lambda>line. \<not> starts_with_hash line) inp)))"
    by (cases "open_possible_gzip fs (ch # path)")
       (auto simp: get_regions_def finish_regions_def)
next
  assume "(regions a = None \<or> regions a = Some []) \<and>
       (regions_file a = None \<or> regions_file a = Some [])"
  then have "get_regions fs a g srt = finish_regions srt (Inr (whole_chromosomes g))"
    by (auto simp: get_regions_def)
  then have "get_regions fs a g srt = Inr (whole_chromosomes g)"
    by (simp only: finish_whole_chromosomes)
  then show "get_regions fs a g srt =
        Inr (map (\<lambda>i. \<lparr>chrom_id = i, start = 0, end_pos = chrom_lengths g ! i,
                        name = Some (genome_chrom_name g i)\<rparr>)
               [0..<length (chrom_lengths g)])"
    using whole_chromosomes_eq[of g] by simp
qed

theorem get_regions_takes_one_path_witness:
  "get_regions no_files \<lparr>regions = Some [''chr2'', ''chr1:5-10''], regions_file = Some ''regions.bed''\<rparr>
      two_chroms True
     = Inr [reg 0 5 10, reg 1 0 500]
   \<and> get_regions bed_files \<lparr>regions = Some [''chr2'', ''chr1:5-10''], regions_file = None\<rparr>
      two_chroms True
     = Inr [reg 0 5 10, reg 1 0 500]
   \<and> get_regions bed_files \<lparr>regions = Some [], regions_file = Some ''regions.bed''\<rparr>
      two_chroms True
     = Inr [\<lparr>chrom_id = 0, start = 10, end_pos = 20, name = Some ''first''\<rparr>, reg 1 5 500]
   \<and> get_regions bed_files \<lparr>regions = None, regions_file = None\<rparr> two_chroms True
     = Inr [\<lparr>chrom_id = 0, start = 0, end_pos = 1000, name = Some ''chr1''\<rparr>,
            \<lparr>chrom_id = 1, start = 0, end_pos = 500, name = Some ''chr2''\<rparr>]"
proof -
  let ?both = "\<lparr>regions = Some [''chr2'', ''chr1:5-10''], regions_file = Some ''regions.bed''\<rparr>"
  let ?file = "\<lparr>regions = Some [], regions_file = Some ''regions.bed''\<rparr>"
  let ?none = "\<lparr>regions = None, regions_file = None\<rparr>"
  have 1: "finish_regions True (collect (interval_of_region two_chroms) [''chr2'', ''chr1:5-10''])
      = Inr [reg 0 5 10, reg 1 0 500]"
    by (simp add: parse_defs two_chroms_def reg_def)
  have 2: "(case open_possible_gzip bed_files ''regions.bed'' of
           Inl err \<Rightarrow> Inl err
         | Inr inp \<Rightarrow>
             finish_regions True
               (collect (interval_of_line two_chroms)
                  (filter (\<lambda>line. \<not> starts_with_hash line) inp)))
      = Inr [\<lparr>chrom_id = 0, start = 10, end_pos = 20, name = Some ''first''\<rparr>, reg 1 5 500]"
    by (simp add: parse_defs bed_files_def two_chroms_def reg_def)
  have ab: "get_regions no_files ?both two_chroms True
        = finish_regions True (collect (interval_of_region two_chroms) [''chr2'', ''chr1:5-10''])
      \<and> get_regions no_files ?both two_chroms True
        = get_regions bed_files (?both\<lparr>regions_file := None\<rparr>) two_chroms True"
    by (rule mp[OF conjunct1[OF get_regions_takes_one_path
      [of ?both "''chr2''" "[''chr1:5-10'']" no_files two_chroms True bed_files None]]]) simp
  have a: "get_regions no_files ?both two_chroms True = Inr [reg 0 5 10, reg 1 0 500]"
    using ab 1 by simp
  have e: "get_regions no_files ?both two_chroms True
      = get_regions bed_files \<lparr>regions = Some [''chr2'', ''chr1:5-10''], regions_file = None\<rparr>
          two_chroms True"
    using conjunct2[OF ab] by simp
  have b: "get_regions bed_files \<lparr>regions = Some [''chr2'', ''chr1:5-10''], regions_file = None\<rparr>
      two_chroms True = Inr [reg 0 5 10, reg 1 0 500]"
    using e[symmetric] a by (rule trans)
  from get_regions_takes_one_path
      [of ?file "''chr2''" "[]" bed_files two_chroms True bed_files None "CHR ''r''" "''egions.bed''"]
  have c: "get_regions bed_files ?file two_chroms True
      = Inr [\<lparr>chrom_id = 0, start = 10, end_pos = 20, name = Some ''first''\<rparr>, reg 1 5 500]"
    using 2 by simp
  from get_regions_takes_one_path
      [of ?none "''chr2''" "[]" bed_files two_chroms True bed_files None "CHR ''r''" "''egions.bed''"]
  have d: "get_regions bed_files ?none two_chroms True
     = Inr [\<lparr>chrom_id = 0, start = 0, end_pos = 1000, name = Some ''chr1''\<rparr>,
            \<lparr>chrom_id = 1, start = 0, end_pos = 500, name = Some ''chr2''\<rparr>]"
    by (simp add: two_chroms_def upt_rec)
  from a b c d show ?thesis by simp
qed

text \<open>
  Claim C8, as the claim states it, fails for a blank line: the loop skips only the lines
  that begin with \<open>#\<close>.  A blank line is stripped to the empty string, split into the one
  field \<open>''\<close> and parsed like any other line, which raises.  Here the second line of the
  file is blank and the build ends with the exception instead of the interval of the first
  line.
\<close>

theorem blank_line_counterexample:
  "strip [CHR 0x0A] = []
   \<and> get_regions blank_files \<lparr>regions = None, regions_file = Some ''regions.bed''\<rparr> two_chroms True
       = Inl (UnknownChromosome [])"
  by (simp add: get_regions_def blank_files_def two_chroms_def parse_defs)

text \<open>
  Claim C8, amended.  When the region set is built from a region file, every line that
  begins with \<open>#\<close> is skipped, and every other line, a blank line included, is parsed.
  The build raises an exception exactly when one of the parsed lines is malformed, and
  then returns no region set; otherwise it returns the intervals of the parsed lines, in
  the order of the lines or sorted.  A line that is parsed into an interval has, after
  stripping, at least three fields separated by tabs: the name of a chromosome of the
  genome, two integers, and a fourth field that is the name if there is one; the interval
  is the trimmed interval of these fields.  A blank line is malformed.
\<close>

theorem region_file_build:
  assumes "regions a = None \<or> regions a = Some []"
    and "regions_file a = Some (ch # path)"
    and "open_possible_gzip fs (ch # path) = Inr inp"
  shows "(isl (get_regions fs a g srt) \<longleftrightarrow>
            (\<exists>l\<in>set inp. \<not> starts_with_hash l \<and> isl (interval_of_line g l)))
       \<and> (\<forall>ivs. get_regions fs a g srt = Inr ivs \<longrightarrow>
            (\<exists>ps. list_all2 (\<lambda>l iv. interval_of_line g l = Inr iv)
                     (filter (\<lambda>l. \<not> starts_with_hash l) inp) ps
                \<and> ivs = (if srt then sort_key interval_key ps else ps)))
       \<and> (\<forall>l iv. interval_of_line g l = Inr iv \<longrightarrow>
            3 \<le> length (split_on (CHR 0x09) (strip l))
          \<and> (\<exists>cid s e.
                genome_chrom_id g (split_on (CHR 0x09) (strip l) ! 0) = Some cid
              \<and> py_int (split_on (CHR 0x09) (strip l) ! 1) = Inr s
              \<and> py_int (split_on (CHR 0x09) (strip l) ! 2) = Inr e
              \<and> iv = trim (NamedInterval cid s e g
                      (if 3 < length (split_on (CHR 0x09) (strip l))
                       then Some (split_on (CHR 0x09) (strip l) ! 3) else None)) g))
       \<and> (\<forall>l. strip l = [] \<longrightarrow> isl (interval_of_line g l))"
proof -
  let ?ls = "filter (\<lambda>l. \<not> starts_with_hash l) inp"
  have g: "get_regions fs a g srt = finish_regions srt (collect (interval_of_line g) ?ls)"
    using assms by (auto simp: get_regions_def)
  have A: "isl (get_regions fs a g srt) \<longleftrightarrow>
            (\<exists>l\<in>set inp. \<not> starts_with_hash l \<and> isl (interval_of_line g l))"
    by (auto simp: g finish_regions_isl collect_isl)
  have B: "\<exists>ps. list_all2 (\<lambda>l iv. interval_of_line g l = Inr iv) ?ls ps
                \<and> ivs = (if srt then sort_key interval_key ps else ps)"
    if "get_regions fs a g srt = Inr ivs" for ivs
  proof (cases "collect (interval_of_line g) ?ls")
    case (Inl err)
    then show ?thesis using that by (simp add: g finish_regions_def)
  next
    case (Inr ps)
    then have "list_all2 (\<lambda>l iv. interval_of_line g l = Inr iv) ?ls ps"
      by (simp add: collect_Inr)
    moreover have "ivs = (if srt then sort_key interval_key ps else ps)"
      using that Inr by (simp add: g finish_regions_def)
    ultimately show ?thesis by blast
  qed
  show ?thesis
    using A B interval_of_line_Inr interval_of_line_blank by blast
qed

theorem region_file_build_witness:
  "get_regions bed_files \<lparr>regions = None, regions_file = Some ''regions.bed''\<rparr> two_chroms True
     = Inr [\<lparr>chrom_id = 0, start = 10, end_pos = 20, name = Some ''first''\<rparr>, reg 1 5 500]
   \<and> isl (get_regions blank_files \<lparr>regions = None, regions_file = Some ''regions.bed''\<rparr>
            two_chroms True)"
proof -
  let ?a = "\<lparr>regions = None, regions_file = Some ''regions.bed''\<rparr>"
  have 1: "regions ?a = None \<or> regions ?a = Some []" by simp
  have 2: "regions_file ?a = Some (CHR ''r'' # ''egions.bed'')" by simp
  have 3: "open_possible_gzip blank_files (CHR ''r'' # ''egions.bed'')
      = Inr [bed_line [''chr1'', ''10'', ''20''], [CHR 0x0A]]"
    by (simp add: open_possible_gzip_def blank_files_def)
  have 4: "\<exists>l\<in>set [bed_line [''chr1'', ''10'', ''20''], [CHR 0x0A]].
      \<not> starts_with_hash l \<and> isl (interval_of_line two_chroms l)"
    by (simp add: parse_defs two_chroms_def)
  have 5: "isl (get_regions blank_files ?a two_chroms True)"
    using conjunct1[OF region_file_build[OF 1 2 3, of two_chroms True]] 4 by blast
  have 6: "get_regions bed_files ?a two_chroms True
     = Inr [\<lparr>chrom_id = 0, start = 10, end_pos = 20, name = Some ''first''\<rparr>, reg 1 5 500]"
    by (simp add: get_regions_def parse_defs bed_files_def two_chroms_def reg_def)
  show ?thesis using 5 6 by (rule conjI[rotated])
qed

subsection \<open>\<open>fetch_iterator\<close>\<close>

text \<open>
  Claim C6.  When neither a list of regions nor a region file is given (each is \<open>None\<close>
  or empty), \<open>fetch_iterator\<close> returns what the query without arguments \<open>obj.fetch()\<close>
  returns, whatever the files, the genome and the two flags are.
\<close>

theorem no_selection_fetches_everything:
  assumes "regions a = None \<or> regions a = Some []"
    and "regions_file a = None \<or> regions_file a = Some []"
  shows "fetch_iterator fs obj a g no_duplicates start_attr = Inr (fetch_all obj, None)"
  using assms by (simp add: fetch_iterator_def no_selection_def)

theorem no_selection_fetches_everything_witness:
  "fetch_iterator no_files overlap_source \<lparr>regions = None, regions_file = None\<rparr> two_chroms True False
     = Inr ([ent ''a'' 10, ent ''b'' 60, ent ''c'' 90, ent ''d'' 120], None)
   \<and> fetch_iterator no_files overlap_source \<lparr>regions = Some [], regions_file = Some []\<rparr> two_chroms True False
     = Inr ([ent ''a'' 10, ent ''b'' 60, ent ''c'' 90, ent ''d'' 120], None)"
  using no_selection_fetches_everything
      [of "\<lparr>regions = None, regions_file = None\<rparr>" no_files overlap_source two_chroms True False]
    no_selection_fetches_everything
      [of "\<lparr>regions = Some [], regions_file = Some []\<rparr>" no_files overlap_source two_chroms True False]
  by (simp add: overlap_source_def table_source_def)

text \<open>
  Claim C10.  When a list of regions or a region file is given, \<open>fetch_iterator\<close> builds
  the regions with \<open>sort=True\<close> before anything is fetched.  If the build succeeds, the
  regions are sorted by \<open>(chrom_id, start, end)\<close>, whatever the order of the input was,
  and the iterator returned is the deduplicating generator over these regions, or the
  concatenation of their range queries when \<open>no_duplicates\<close> is false.  If the build
  raises, \<open>fetch_iterator\<close> raises the same exception and fetches nothing.
\<close>

theorem fetch_iterator_sorts_regions:
  assumes "\<not> no_selection a"
  shows "(\<forall>rs. get_regions fs a g True = Inr rs \<longrightarrow>
            sorted (map interval_key rs)
          \<and> fetch_iterator fs obj a g no_duplicates start_attr =
              Inr (if no_duplicates then fetch_regions_wo_duplicates obj rs g start_attr
                   else (concat (map (fetch_region obj g) rs), None)))
       \<and> (\<forall>err. get_regions fs a g True = Inl err \<longrightarrow>
            fetch_iterator fs obj a g no_duplicates start_attr = Inl err)"
proof (intro conjI allI impI)
  fix rs
  assume r: "get_regions fs a g True = Inr rs"
  obtain res where g: "get_regions fs a g True = finish_regions True res"
    by (simp add: get_regions_def)
  show "sorted (map interval_key rs)"
  proof (cases res)
    case (Inl err)
    then show ?thesis using r g by (simp add: finish_regions_def)
  next
    case (Inr ivs)
    then have "rs = sort_key interval_key ivs" using r g by (simp add: finish_regions_def)
    then show ?thesis by (simp add: sorted_sort_key)
  qed
  show "fetch_iterator fs obj a g no_duplicates start_attr =
      Inr (if no_duplicates then fetch_regions_wo_duplicates obj rs g start_attr
           else (concat (map (fetch_region obj g) rs), None))"
    using assms r by (simp add: fetch_iterator_def)
next
  fix err
  assume "get_regions fs a g True = Inl err"
  then show "fetch_iterator fs obj a g no_duplicates start_attr = Inl err"
    using assms by (simp add: fetch_iterator_def)
qed

theorem fetch_iterator_sorts_regions_witness:
  "get_regions no_files \<lparr>regions = Some [''chr1:50-150'', ''chr1:0-100''], regions_file = None\<rparr>
      two_chroms True = Inr [reg 0 0 100, reg 0 50 150]
   \<and> sorted (map interval_key [reg 0 0 100, reg 0 50 150])
   \<and> fetch_iterator no_files overlap_source
        \<lparr>regions = Some [''chr1:50-150'', ''chr1:0-100''], regions_file = None\<rparr>
        two_chroms True False
       = Inr ([ent ''a'' 10, ent ''b'' 60, ent ''c'' 90, ent ''d'' 120], None)
   \<and> fetch_iterator no_files overlap_source
        \<lparr>regions = Some [''chr1:50-150'', ''chr1:0-100''], regions_file = None\<rparr>
        two_chroms False False
       = Inr ([ent ''a'' 10, ent ''b'' 60, ent ''c'' 90, ent ''b'' 60, ent ''c'' 90, ent ''d'' 120], None)"
proof -
  let ?a = "\<lparr>regions = Some [''chr1:50-150'', ''chr1:0-100''], regions_file = None\<rparr>"
  let ?rs = "[reg 0 0 100, reg 0 50 150]"
  have 1: "\<not> no_selection ?a" by (simp add: no_selection_def)
  have 2: "get_regions no_files ?a two_chroms True = Inr ?rs"
    by (simp add: get_regions_def parse_defs two_chroms_def reg_def)
  have 3: "fetch_regions_wo_duplicates overlap_source ?rs two_chroms False
      = ([ent ''a'' 10, ent ''b'' 60, ent ''c'' 90, ent ''d'' 120], None)"
    by (simp add: fetch_regions_wo_duplicates_def initial_cursor_def region_body_def
        overlap_source_def example_defs)
  have 4: "concat (map (fetch_region overlap_source two_chroms) ?rs)
      = [ent ''a'' 10, ent ''b'' 60, ent ''c'' 90, ent ''b'' 60, ent ''c'' 90, ent ''d'' 120]"
    by (simp add: overlap_source_def example_defs)
  have s: "sorted (map interval_key ?rs)"
    and d: "fetch_iterator no_files overlap_source ?a two_chroms True False =
        Inr (fetch_regions_wo_duplicates overlap_source ?rs two_chroms False)"
    using conjunct1[OF fetch_iterator_sorts_regions
        [OF 1, of no_files two_chroms overlap_source True False]] 2 by simp_all
  have n: "fetch_iterator no_files overlap_source ?a two_chroms False False =
        Inr (concat (map (fetch_region overlap_source two_chroms) ?rs), None)"
    using conjunct1[OF fetch_iterator_sorts_regions
        [OF 1, of no_files two_chroms overlap_source False False]] 2 by simp
  show ?thesis using 2 s d n 3 4 by simp
qed

end
